theory Spec2Isabelle
  imports Main
begin

section \<open>Network address helpers of the cinder charm (hooks/charmhelpers/contrib/network/ip.py)\<close>

text \<open>
  The module asks two external libraries for everything it knows: \<^verbatim>\<open>netifaces\<close> lists
  the interfaces of the host and their addresses, \<^verbatim>\<open>netaddr\<close> parses address and
  network strings and decides containment. The functions of the module are embedded
  as HOL functions that take both as explicit arguments: the interface table as a
  snapshot, the parsers of \<^verbatim>\<open>netaddr\<close> as a record of functions. Every exception and
  the process exit are values of the result.
\<close>

subsection \<open>Exceptions, exit and the log\<close>

datatype exn =
    AddrFormatError string
  | ValueError string
  | TypeError string
  | KeyError string
  | IndexError

datatype error = Raised exn | SystemExit int

text \<open>
  Modelled from the spec: \<^verbatim>\<open>charmhelpers.core.hookenv\<close>, which provides \<^verbatim>\<open>log\<close> and the
  level \<^verbatim>\<open>ERROR\<close>, is missing. The spec calls it a logging sink; a call of
  \<^verbatim>\<open>log(message, level=...)\<close> is recorded as one entry (message, level).
\<close>

definition ERROR :: string where
  "ERROR = ''ERROR''"

type_synonym log_entry = "string \<times> string"

definition log :: "string \<Rightarrow> string \<Rightarrow> log_entry list" where
  "log message level = [(message, level)]"

text \<open>Python's \<^verbatim>\<open>"%s" % x\<close> for a value that is a string or \<^verbatim>\<open>None\<close>.\<close>

fun format_s :: "string option \<Rightarrow> string" where
  "format_s None = ''None''"
| "format_s (Some s) = s"

subsection \<open>The objects of netaddr\<close>

text \<open>
  An \<^verbatim>\<open>IPAddress\<close> object holds the IP version and the address as an unsigned
  integer, an \<^verbatim>\<open>IPNetwork\<close> object holds in addition the prefix length. The address
  part of a network keeps its host bits: \<^verbatim>\<open>IPNetwork('192.168.1.5/24').ip\<close> is
  192.168.1.5. The first and the last address of a network and the two containment
  tests are written as \<^verbatim>\<open>netaddr\<close> computes them: \<^verbatim>\<open>first\<close> is
  \<^verbatim>\<open>value & (max_int ^ hostmask)\<close>, \<^verbatim>\<open>last\<close> is \<^verbatim>\<open>value | hostmask\<close>, and \<^verbatim>\<open>other in self\<close>
  compares the versions and then the bounds. In the words of the spec these are the
  range derived from address and netmask, a range that falls inside a network, and an
  address that is in a network; \<open>contains_address_same_prefix\<close> below relates them to
  the leading bits.
\<close>

datatype IPAddress = IPAddress (version: nat) (ip_value: nat)

datatype IPNetwork = IPNetwork (net_version: nat) (net_value: nat) (prefixlen: nat)

definition width :: "nat \<Rightarrow> nat" where
  "width v = (if v = 4 then 32 else 128)"

definition max_int :: "nat \<Rightarrow> nat" where
  "max_int v = 2 ^ width v - 1"

definition hostmask_int :: "IPNetwork \<Rightarrow> nat" where
  "hostmask_int n = 2 ^ (width (net_version n) - prefixlen n) - 1"

definition first :: "IPNetwork \<Rightarrow> nat" where
  "first n = and (net_value n) (xor (max_int (net_version n)) (hostmask_int n))"

definition last_addr :: "IPNetwork \<Rightarrow> nat" where
  "last_addr n = or (net_value n) (hostmask_int n)"

definition ip :: "IPNetwork \<Rightarrow> IPAddress" where
  "ip n = IPAddress (net_version n) (net_value n)"

text \<open>\<^verbatim>\<open>other in self\<close> for an address and for a network \<^verbatim>\<open>other\<close>.\<close>

definition contains_address :: "IPNetwork \<Rightarrow> IPAddress \<Rightarrow> bool" where
  "contains_address self other =
     (if net_version self \<noteq> version other then False
      else first self \<le> ip_value other \<and> ip_value other \<le> last_addr self)"

definition contains_network :: "IPNetwork \<Rightarrow> IPNetwork \<Rightarrow> bool" where
  "contains_network self other =
     (if net_version self \<noteq> net_version other then False
      else first self \<le> first other \<and> last_addr other \<le> last_addr self)"

text \<open>
  The constructors \<^verbatim>\<open>netaddr.IPNetwork(x)\<close> and \<^verbatim>\<open>netaddr.IPAddress(x)\<close> and
  \<^verbatim>\<open>str\<close> of an address are parameters: the library is not part of the module.
  A constructor returns the object or the exception it raises.
\<close>

record netaddr =
  new_IPNetwork :: "string option \<Rightarrow> exn + IPNetwork"
  new_IPAddress :: "string \<Rightarrow> exn + IPAddress"
  str_IPAddress :: "IPAddress \<Rightarrow> string"

subsection \<open>The interface table of netifaces\<close>

text \<open>
  \<^verbatim>\<open>netifaces.interfaces()\<close> is the list of interface names, in the order the host
  reports them; \<^verbatim>\<open>netifaces.ifaddresses(iface)\<close> is a dictionary from address family
  to a list of dictionaries with the keys \<^verbatim>\<open>addr\<close>, \<^verbatim>\<open>netmask\<close> and others.
\<close>

type_synonym ifaddr = "string \<rightharpoonup> string"

record netifaces =
  interfaces :: "string list"
  ifaddresses :: "string \<Rightarrow> (int \<rightharpoonup> ifaddr list)"

definition AF_INET :: int where
  "AF_INET = 2"

subsection \<open>The module\<close>

definition validate_cidr :: "netaddr \<Rightarrow> string option \<Rightarrow> error + unit" where
  "validate_cidr L network =
     (case new_IPNetwork L network of
        Inr _ \<Rightarrow> Inr ()
      | Inl (AddrFormatError _) \<Rightarrow>
          Inl (Raised (ValueError (''Network ('' @ format_s network @
                                   '') is not in CIDR presentation format'')))
      | Inl (ValueError _) \<Rightarrow>
          Inl (Raised (ValueError (''Network ('' @ format_s network @
                                   '') is not in CIDR presentation format'')))
      | Inl e \<Rightarrow> Inl (Raised e))"

text \<open>
  Both loops of the module read the first \<^verbatim>\<open>AF_INET\<close> entry of an interface the same
  way (lines 57 to 59 and 112 to 114): \<^verbatim>\<open>addresses[AF_INET][0]['addr']\<close>, then
  \<^verbatim>\<open>addresses[AF_INET][0]['netmask']\<close>, then \<^verbatim>\<open>IPNetwork("%s/%s" % (addr, netmask))\<close>.
  An empty list raises \<^verbatim>\<open>IndexError\<close>, a missing key \<^verbatim>\<open>KeyError\<close>, and what the
  constructor raises is not caught.
\<close>

definition inet_cidr :: "netaddr \<Rightarrow> ifaddr list \<Rightarrow> error + IPNetwork" where
  "inet_cidr L entries =
     (case entries of
        [] \<Rightarrow> Inl (Raised IndexError)
      | entry # _ \<Rightarrow>
          (case entry ''addr'' of
             None \<Rightarrow> Inl (Raised (KeyError ''addr''))
           | Some addr \<Rightarrow>
               (case entry ''netmask'' of
                  None \<Rightarrow> Inl (Raised (KeyError ''netmask''))
                | Some netmask \<Rightarrow>
                    (case new_IPNetwork L (Some (addr @ ''/'' @ netmask)) of
                       Inl e \<Rightarrow> Inl (Raised e)
                     | Inr cidr \<Rightarrow> Inr cidr))))"

definition not_found_error_out :: "string option \<Rightarrow> log_entry list \<times> (error + string option)" where
  "not_found_error_out network =
     (log (''No IP address found in network: '' @ format_s network) ERROR,
      Inl (SystemExit 1))"

text \<open>
  The \<^verbatim>\<open>for\<close> loop of \<^verbatim>\<open>get_address_in_network\<close> over the interfaces still to visit:
  \<^verbatim>\<open>Inr (Some a)\<close> is the \<^verbatim>\<open>return\<close> inside the loop, \<^verbatim>\<open>Inr None\<close> the end of the loop.
\<close>

fun address_loop :: "netaddr \<Rightarrow> netifaces \<Rightarrow> string option \<Rightarrow> string list \<Rightarrow> error + string option" where
  "address_loop L N network [] = Inr None"
| "address_loop L N network (iface # ifaces) =
     (let addresses = ifaddresses N iface in
      case addresses AF_INET of
        None \<Rightarrow> address_loop L N network ifaces
      | Some entries \<Rightarrow>
          (case inet_cidr L entries of
             Inl e \<Rightarrow> Inl e
           | Inr cidr \<Rightarrow>
               (case new_IPNetwork L network of
                  Inl e \<Rightarrow> Inl (Raised e)
                | Inr net \<Rightarrow>
                    if contains_network net cidr
                    then Inr (Some (str_IPAddress L (ip cidr)))
                    else address_loop L N network ifaces)))"

definition get_address_in_network ::
  "netaddr \<Rightarrow> netifaces \<Rightarrow> string option \<Rightarrow> string option \<Rightarrow> bool \<Rightarrow>
   log_entry list \<times> (error + string option)" where
  "get_address_in_network L N network fallback fatal =
     (let continue =
        (case validate_cidr L network of
           Inl e \<Rightarrow> ([], Inl e)
         | Inr _ \<Rightarrow>
             (case address_loop L N network (interfaces N) of
                Inl e \<Rightarrow> ([], Inl e)
              | Inr (Some a) \<Rightarrow> ([], Inr (Some a))
              | Inr None \<Rightarrow>
                  if fallback \<noteq> None then ([], Inr fallback)
                  else if fatal then not_found_error_out network
                  else ([], Inr None)))
      in if network = None
         then (if fallback \<noteq> None then ([], Inr fallback)
               else if fatal then not_found_error_out network
               else continue)
         else continue)"

definition is_address_in_network :: "netaddr \<Rightarrow> string \<Rightarrow> string \<Rightarrow> error + bool" where
  "is_address_in_network L network address =
     (let invalid_network =
        Inl (Raised (ValueError (''Network ('' @ network @
                                 '') is not in CIDR presentation format'')));
          invalid_address =
        Inl (Raised (ValueError (''Address ('' @ address @
                                 '') is not in correct presentation format'')))
      in case new_IPNetwork L (Some network) of
           Inl (AddrFormatError _) \<Rightarrow> invalid_network
         | Inl (ValueError _) \<Rightarrow> invalid_network
         | Inl e \<Rightarrow> Inl (Raised e)
         | Inr net \<Rightarrow>
             (case new_IPAddress L address of
                Inl (AddrFormatError _) \<Rightarrow> invalid_address
              | Inl (ValueError _) \<Rightarrow> invalid_address
              | Inl e \<Rightarrow> Inl (Raised e)
              | Inr a \<Rightarrow> if contains_address net a then Inr True else Inr False))"

text \<open>The loop of \<^verbatim>\<open>_get_for_address\<close>, with the address already parsed.\<close>

fun for_address_loop :: "netaddr \<Rightarrow> netifaces \<Rightarrow> IPAddress \<Rightarrow> string \<Rightarrow> string list \<Rightarrow> error + string option" where
  "for_address_loop L N address key [] = Inr None"
| "for_address_loop L N address key (iface # ifaces) =
     (let addresses = ifaddresses N iface in
      case addresses AF_INET of
        None \<Rightarrow> for_address_loop L N address key ifaces
      | Some entries \<Rightarrow>
          (case inet_cidr L entries of
             Inl e \<Rightarrow> Inl e
           | Inr cidr \<Rightarrow>
               if contains_address cidr address
               then (if key = ''iface'' then Inr (Some iface)
                     else (case entries of
                             [] \<Rightarrow> Inl (Raised IndexError)
                           | entry # _ \<Rightarrow>
                               (case entry key of
                                  None \<Rightarrow> Inl (Raised (KeyError key))
                                | Some v \<Rightarrow> Inr (Some v))))
               else for_address_loop L N address key ifaces))"

definition get_for_address :: "netaddr \<Rightarrow> netifaces \<Rightarrow> string \<Rightarrow> string \<Rightarrow> error + string option" where
  "get_for_address L N address key =
     (case new_IPAddress L address of
        Inl e \<Rightarrow> Inl (Raised e)
      | Inr a \<Rightarrow> for_address_loop L N a key (interfaces N))"

definition get_iface_for_address :: "netaddr \<Rightarrow> netifaces \<Rightarrow> string \<Rightarrow> error + string option" where
  "get_iface_for_address L N address = get_for_address L N address ''iface''"

definition get_netmask_for_address :: "netaddr \<Rightarrow> netifaces \<Rightarrow> string \<Rightarrow> error + string option" where
  "get_netmask_for_address L N address = get_for_address L N address ''netmask''"

subsection \<open>The subnet configured on an interface\<close>

text \<open>
  In the words of the spec, an interface record is (name, assigned address, netmask),
  of which only the first IPv4 entry is considered, and the subnet configured on the
  interface is the range derived from that address and netmask. \<open>configured_subnet\<close>
  is that range, when the interface has a first IPv4 entry with both keys that the
  library accepts.
\<close>

definition configured_subnet :: "netaddr \<Rightarrow> netifaces \<Rightarrow> string \<Rightarrow> IPNetwork option" where
  "configured_subnet L N iface =
     (case ifaddresses N iface AF_INET of
        None \<Rightarrow> None
      | Some [] \<Rightarrow> None
      | Some (entry # _) \<Rightarrow>
          (case (entry ''addr'', entry ''netmask'') of
             (Some addr, Some netmask) \<Rightarrow>
               (case new_IPNetwork L (Some (addr @ ''/'' @ netmask)) of
                  Inl _ \<Rightarrow> None
                | Inr cidr \<Rightarrow> Some cidr)
           | _ \<Rightarrow> None))"

text \<open>
  A loop passes over an interface that has no IPv4 entry at all, and over one whose
  configured subnet does not match; it does not pass over an interface whose first
  IPv4 entry is incomplete or rejected by the library (there it raises).
\<close>

definition passed_over :: "netaddr \<Rightarrow> netifaces \<Rightarrow> (IPNetwork \<Rightarrow> bool) \<Rightarrow> string \<Rightarrow> bool" where
  "passed_over L N matches iface =
     (case ifaddresses N iface AF_INET of
        None \<Rightarrow> True
      | Some _ \<Rightarrow>
          (case configured_subnet L N iface of
             None \<Rightarrow> False
           | Some cidr \<Rightarrow> \<not> matches cidr))"

subsection \<open>An IPv4 instance of the library\<close>

text \<open>
  To run the module on concrete strings, the parameters are instantiated with the
  IPv4 fragment of \<^verbatim>\<open>netaddr\<close> in its strict form: an address is four decimal octets
  separated by dots, a network is an address, optionally followed by a slash and a
  prefix length from 0 to 32 or a netmask in dotted form. \<^verbatim>\<open>IPNetwork(None)\<close> raises
  \<^verbatim>\<open>TypeError\<close>, as \<^verbatim>\<open>netaddr\<close> does for an argument that is no string. The
  abbreviated and the IPv6 forms that \<^verbatim>\<open>netaddr\<close> also reads are left out, so the
  instance stands for the library on the strings of the examples only. The theorems
  about the module hold for every library; this instance supplies the examples.
\<close>

definition digit_value :: "char \<Rightarrow> nat option" where
  "digit_value c =
     map_of [(CHR ''0'', 0), (CHR ''1'', 1), (CHR ''2'', 2), (CHR ''3'', 3), (CHR ''4'', 4),
             (CHR ''5'', 5), (CHR ''6'', 6), (CHR ''7'', 7), (CHR ''8'', 8), (CHR ''9'', 9)] c"

fun decimal_from :: "nat \<Rightarrow> string \<Rightarrow> nat option" where
  "decimal_from acc [] = Some acc"
| "decimal_from acc (c # cs) =
     (case digit_value c of
        None \<Rightarrow> None
      | Some d \<Rightarrow> decimal_from (10 * acc + d) cs)"

definition decimal :: "string \<Rightarrow> nat option" where
  "decimal s = (if s = [] then None else decimal_from 0 s)"

fun split_on :: "char \<Rightarrow> string \<Rightarrow> string list" where
  "split_on sep [] = [[]]"
| "split_on sep (c # cs) =
     (if c = sep then [] # split_on sep cs
      else (case split_on sep cs of
              [] \<Rightarrow> [[c]]
            | part # parts \<Rightarrow> (c # part) # parts))"

definition octet :: "string \<Rightarrow> nat option" where
  "octet s =
     (case decimal s of
        None \<Rightarrow> None
      | Some n \<Rightarrow> if n \<le> 255 \<and> length s \<le> 3 then Some n else None)"

definition dotted_quad :: "string \<Rightarrow> nat option" where
  "dotted_quad s =
     (case map octet (split_on (CHR ''.'') s) of
        [Some a, Some b, Some c, Some d] \<Rightarrow> Some (((a * 256 + b) * 256 + c) * 256 + d)
      | _ \<Rightarrow> None)"

definition netmask_to_prefix :: "nat \<Rightarrow> nat option" where
  "netmask_to_prefix m = List.find (\<lambda>p. 2 ^ 32 - 2 ^ (32 - p) = m) [0..<33]"

definition prefix_of :: "string \<Rightarrow> nat option" where
  "prefix_of s =
     (case decimal s of
        Some p \<Rightarrow> if p \<le> 32 then Some p else None
      | None \<Rightarrow>
          (case dotted_quad s of
             None \<Rightarrow> None
           | Some m \<Rightarrow> netmask_to_prefix m))"

text \<open>
  \<^verbatim>\<open>IPAddress\<close> refuses a string with a slash before it tries to read it, with a
  \<^verbatim>\<open>ValueError\<close> whose message does not quote the string; any other string that is no
  address gets an \<^verbatim>\<open>AddrFormatError\<close>.
\<close>

definition ipv4_address :: "string \<Rightarrow> exn + IPAddress" where
  "ipv4_address s =
     (if CHR ''/'' \<in> set s
      then Inl (ValueError
        ''IPAddress() does not support netmasks or subnet prefixes! See documentation for details.'')
      else case dotted_quad s of
             None \<Rightarrow> Inl (AddrFormatError (''failed to detect a valid IP address from '' @ s))
           | Some v \<Rightarrow> Inr (IPAddress 4 v))"

definition ipv4_network :: "string option \<Rightarrow> exn + IPNetwork" where
  "ipv4_network x =
     (case x of
        None \<Rightarrow> Inl (TypeError ''unexpected type for addr arg'')
      | Some s \<Rightarrow>
          (let val1 = takeWhile (\<lambda>c. c \<noteq> CHR ''/'') s;
               rest = dropWhile (\<lambda>c. c \<noteq> CHR ''/'') s;
               invalid = Inl (AddrFormatError (''invalid IPNetwork '' @ s))
           in case dotted_quad val1 of
                None \<Rightarrow> invalid
              | Some v \<Rightarrow>
                  (case rest of
                     [] \<Rightarrow> Inr (IPNetwork 4 v 32)
                   | _ # val2 \<Rightarrow>
                       (case prefix_of val2 of
                          None \<Rightarrow> invalid
                        | Some p \<Rightarrow> Inr (IPNetwork 4 v p)))))"

definition digit_char :: "nat \<Rightarrow> char" where
  "digit_char d = ''0123456789'' ! (d mod 10)"

definition octet_str :: "nat \<Rightarrow> string" where
  "octet_str n =
     (if n < 10 then [digit_char n]
      else if n < 100 then [digit_char (n div 10), digit_char (n mod 10)]
      else [digit_char (n div 100), digit_char (n div 10 mod 10), digit_char (n mod 10)])"

definition ipv4_str :: "IPAddress \<Rightarrow> string" where
  "ipv4_str a =
     octet_str (ip_value a div 2 ^ 24 mod 256) @ ''.'' @
     octet_str (ip_value a div 2 ^ 16 mod 256) @ ''.'' @
     octet_str (ip_value a div 2 ^ 8 mod 256) @ ''.'' @
     octet_str (ip_value a mod 256)"

definition netaddr4 :: netaddr where
  "netaddr4 =
     \<lparr>new_IPNetwork = ipv4_network, new_IPAddress = ipv4_address, str_IPAddress = ipv4_str\<rparr>"

text \<open>
  A host with a loopback interface, one Ethernet interface with an IPv4 address and
  one with an IPv6 address only (family 10 is \<^verbatim>\<open>AF_INET6\<close>).
\<close>

definition host :: netifaces where
  "host =
     \<lparr>interfaces = [''lo'', ''eth0'', ''eth1''],
      ifaddresses = (\<lambda>iface.
        if iface = ''lo''
        then [AF_INET \<mapsto> [[''addr'' \<mapsto> ''127.0.0.1'', ''netmask'' \<mapsto> ''255.0.0.0'']]]
        else if iface = ''eth0''
        then [AF_INET \<mapsto> [[''addr'' \<mapsto> ''192.168.1.5'', ''netmask'' \<mapsto> ''255.255.255.0'']]]
        else if iface = ''eth1''
        then [10 \<mapsto> [[''addr'' \<mapsto> ''fe80::1'']]]
        else Map.empty)\<rparr>"

section \<open>Evaluation on concrete inputs\<close>

lemmas object_defs =
  contains_address_def contains_network_def first_def last_addr_def hostmask_int_def
  max_int_def width_def ip_def

lemmas ipv4_defs =
  netaddr4_def ipv4_network_def ipv4_address_def ipv4_str_def dotted_quad_def octet_def
  decimal_def digit_value_def prefix_of_def netmask_to_prefix_def octet_str_def digit_char_def
  upt_conv_Cons

section \<open>Ranges\<close>

text \<open>
  The address of a network lies in the range of the network, and a network that
  contains another contains its address.
\<close>

lemma and_nat_le: "and (m::nat) n \<le> m"
proof -
  have "and (int m) (int n) \<le> int m" by (rule AND_upper1) simp
  then have "int (and m n) \<le> int m" by (simp add: of_nat_and_eq)
  then show ?thesis by simp
qed

lemma or_nat_ge: "(m::nat) \<le> or m n"
proof -
  have "int m \<le> or (int m) (int n)" by (rule or_greater_eq) simp
  then have "int m \<le> int (or m n)" by (simp add: of_nat_or_eq)
  then show ?thesis by simp
qed

lemma ip_in_own_range: "first c \<le> net_value c \<and> net_value c \<le> last_addr c"
  by (simp add: first_def last_addr_def and_nat_le or_nat_ge)

lemma contains_network_ip:
  assumes "contains_network net c"
  shows "contains_address net (ip c)"
proof -
  from assms have v: "net_version net = net_version c"
    and r: "first net \<le> first c" "last_addr c \<le> last_addr net"
    by (auto simp: contains_network_def split: if_splits)
  from r ip_in_own_range [of c] have "first net \<le> net_value c" "net_value c \<le> last_addr net"
    by auto
  with v show ?thesis by (simp add: contains_address_def ip_def)
qed

text \<open>
  For a network whose value fits the width of its version, the first and the last
  address are the value with the host bits cleared and set, so that containment of an
  address is equality of the leading \<open>prefixlen\<close> bits.
\<close>

lemma first_eq:
  assumes "net_value n < 2 ^ width (net_version n)" and "prefixlen n \<le> width (net_version n)"
  shows "first n = net_value n div 2 ^ (width (net_version n) - prefixlen n) * 2 ^ (width (net_version n) - prefixlen n)"
proof -
  define w where "w = width (net_version n)"
  define h where "h = w - prefixlen n"
  define v where "v = net_value n"
  have hw: "h \<le> w" by (simp add: h_def)
  have v: "v < 2 ^ w" using assms(1) by (simp add: v_def w_def)
  have "and v (xor (mask w) (mask h)) = push_bit h (drop_bit h v)"
  proof (rule bit_eqI)
    fix k
    have "bit v k \<Longrightarrow> k < w"
      using v by (metis bit_take_bit_iff take_bit_nat_eq_self)
    then show "bit (and v (xor (mask w) (mask h))) k = bit (push_bit h (drop_bit h v)) k"
      using hw by (auto simp: bit_simps)
  qed
  then show ?thesis
    by (simp add: first_def max_int_def hostmask_int_def mask_eq_exp_minus_1 push_bit_eq_mult
        drop_bit_eq_div w_def h_def v_def)
qed

lemma last_addr_eq:
  "last_addr n = net_value n div 2 ^ (width (net_version n) - prefixlen n) * 2 ^ (width (net_version n) - prefixlen n)
      + (2 ^ (width (net_version n) - prefixlen n) - 1)"
proof -
  define h where "h = width (net_version n) - prefixlen n"
  define v where "v = net_value n"
  have "or v (mask h) = or (push_bit h (drop_bit h v)) (mask h)"
    by (rule bit_eqI) (auto simp: bit_simps)
  also have "\<dots> = push_bit h (drop_bit h v) + mask h"
    by (rule disjunctive_add [symmetric]) (auto simp: bit_simps)
  finally show ?thesis
    by (simp add: last_addr_def hostmask_int_def mask_eq_exp_minus_1 push_bit_eq_mult
        drop_bit_eq_div h_def v_def)
qed

lemma same_block:
  fixes x q :: nat
  shows "(q * 2 ^ h \<le> x \<and> x \<le> q * 2 ^ h + (2 ^ h - 1)) = (x div 2 ^ h = q)"
proof -
  define p :: nat where "p = 2 ^ h"
  have p: "0 < p" by (simp add: p_def)
  have "(q * p \<le> x \<and> x \<le> q * p + (p - 1)) = (x div p = q)"
  proof
    assume a: "q * p \<le> x \<and> x \<le> q * p + (p - 1)"
    with p have "x < q * p + p" by linarith
    then have "x < p * Suc q" by (simp add: algebra_simps)
    moreover from a have "p * q \<le> x" by (simp add: mult.commute)
    ultimately show "x div p = q" by (rule div_nat_eqI [rotated])
  next
    assume q: "x div p = q"
    have "x div p * p \<le> x" by (rule div_times_less_eq_dividend)
    moreover have "x < p + x div p * p" using p by (rule dividend_less_div_times)
    ultimately show "q * p \<le> x \<and> x \<le> q * p + (p - 1)"
      unfolding q using p by linarith
  qed
  then show ?thesis by (simp add: p_def)
qed

lemma contains_address_same_prefix:
  assumes "net_value n < 2 ^ width (net_version n)" and "prefixlen n \<le> width (net_version n)"
  shows "contains_address n a =
           (version a = net_version n \<and>
            ip_value a div 2 ^ (width (net_version n) - prefixlen n) =
            net_value n div 2 ^ (width (net_version n) - prefixlen n))"
proof (cases "net_version n = version a")
  case False
  then show ?thesis by (auto simp: contains_address_def)
next
  case True
  have "contains_address n a = (first n \<le> ip_value a \<and> ip_value a \<le> last_addr n)"
    using True by (simp add: contains_address_def)
  also have "\<dots> = (ip_value a div 2 ^ (width (net_version n) - prefixlen n) =
                      net_value n div 2 ^ (width (net_version n) - prefixlen n))"
    unfolding first_eq [OF assms] last_addr_eq by (rule same_block)
  finally show ?thesis using True by auto
qed

section \<open>How the loops run\<close>

lemma inet_cidr_configured:
  "ifaddresses N i AF_INET = Some entries \<Longrightarrow>
   (inet_cidr L entries = Inr c) = (configured_subnet L N i = Some c)"
  by (auto simp: inet_cidr_def configured_subnet_def split: list.splits option.splits sum.splits)

lemma configured_subnet_entry:
  assumes "configured_subnet L N i = Some c"
  shows "\<exists>entry others addr netmask. ifaddresses N i AF_INET = Some (entry # others) \<and>
     entry ''addr'' = Some addr \<and> entry ''netmask'' = Some netmask \<and>
     new_IPNetwork L (Some (addr @ ''/'' @ netmask)) = Inr c"
proof (cases "ifaddresses N i AF_INET")
  case None
  with assms show ?thesis by (simp add: configured_subnet_def)
next
  case (Some entries)
  show ?thesis
  proof (cases entries)
    case Nil
    with Some assms show ?thesis by (simp add: configured_subnet_def)
  next
    case (Cons entry others)
    with Some assms have "inet_cidr L (entry # others) = Inr c"
      by (simp add: inet_cidr_configured)
    then obtain addr netmask where "entry ''addr'' = Some addr" "entry ''netmask'' = Some netmask"
      "new_IPNetwork L (Some (addr @ ''/'' @ netmask)) = Inr c"
      by (simp add: inet_cidr_def split: option.splits sum.splits)
    with Some Cons show ?thesis by blast
  qed
qed

lemma passed_over_cases:
  assumes "passed_over L N matches j"
  obtains "ifaddresses N j AF_INET = None"
  | entries c where "ifaddresses N j AF_INET = Some entries" "inet_cidr L entries = Inr c" "\<not> matches c"
proof (cases "ifaddresses N j AF_INET")
  case None
  then show ?thesis by (intro that(1))
next
  case (Some entries)
  with assms obtain c where c: "configured_subnet L N j = Some c" "\<not> matches c"
    by (auto simp: passed_over_def split: option.splits)
  with Some have "inet_cidr L entries = Inr c" by (simp add: inet_cidr_configured)
  with Some c(2) show ?thesis by (intro that(2))
qed

lemma not_passed_over_cases:
  assumes "\<not> passed_over L N matches j"
  obtains entries e where "ifaddresses N j AF_INET = Some entries" "inet_cidr L entries = Inl e"
  | entries c where "ifaddresses N j AF_INET = Some entries" "inet_cidr L entries = Inr c" "matches c"
proof -
  from assms obtain entries where e: "ifaddresses N j AF_INET = Some entries"
    by (auto simp: passed_over_def split: option.splits)
  show ?thesis
  proof (cases "inet_cidr L entries")
    case (Inl err)
    with e show ?thesis by (intro that(1))
  next
    case (Inr c)
    with e have "configured_subnet L N j = Some c" by (simp add: inet_cidr_configured)
    with assms e have "matches c" by (simp add: passed_over_def)
    with e Inr show ?thesis by (intro that(2))
  qed
qed

subsection \<open>The loop of get_address_in_network\<close>

lemma address_loop_step:
  assumes "new_IPNetwork L network = Inr net"
    and "passed_over L N (contains_network net) j"
  shows "address_loop L N network (j # rest) = address_loop L N network rest"
  using assms(2)
proof (cases rule: passed_over_cases)
  case 1
  then show ?thesis by simp
next
  case (2 entries c)
  with assms(1) show ?thesis by simp
qed

lemma address_loop_pass:
  assumes "new_IPNetwork L network = Inr net"
    and "\<forall>j\<in>set before. passed_over L N (contains_network net) j"
  shows "address_loop L N network (before @ rest) = address_loop L N network rest"
  using assms(2)
proof (induction before)
  case Nil
  then show ?case by simp
next
  case (Cons j before)
  then have "address_loop L N network (j # before @ rest) = address_loop L N network (before @ rest)"
    by (intro address_loop_step [OF assms(1)]) simp
  with Cons show ?case by simp
qed

lemma address_loop_hit:
  assumes "new_IPNetwork L network = Inr net"
    and "configured_subnet L N i = Some c"
    and "contains_network net c"
  shows "address_loop L N network (i # rest) = Inr (Some (str_IPAddress L (ip c)))"
proof -
  from assms(2) obtain entries where e: "ifaddresses N i AF_INET = Some entries"
    using configured_subnet_entry by blast
  with assms(2) have "inet_cidr L entries = Inr c"
    by (simp add: inet_cidr_configured)
  with e assms show ?thesis by simp
qed

lemma address_loop_none:
  assumes "new_IPNetwork L network = Inr net"
    and "\<forall>j\<in>set ifaces. passed_over L N (contains_network net) j"
  shows "address_loop L N network ifaces = Inr None"
  using address_loop_pass [OF assms, of "[]"] by simp

lemma address_loop_found:
  "address_loop L N network ifaces = Inr (Some a) \<Longrightarrow>
   \<exists>i c net. i \<in> set ifaces \<and> configured_subnet L N i = Some c \<and> new_IPNetwork L network = Inr net \<and>
      contains_network net c \<and> a = str_IPAddress L (ip c)"
proof (induction ifaces)
  case Nil
  then show ?case by simp
next
  case (Cons j ifaces)
  show ?case
  proof (cases "ifaddresses N j AF_INET")
    case None
    with Cons.prems have "address_loop L N network ifaces = Inr (Some a)" by simp
    from Cons.IH [OF this] show ?thesis by auto
  next
    case (Some entries)
    with Cons.prems obtain c net where c: "inet_cidr L entries = Inr c" "new_IPNetwork L network = Inr net"
      by (auto split: sum.splits)
    show ?thesis
    proof (cases "contains_network net c")
      case True
      with Some c Cons.prems have "a = str_IPAddress L (ip c)" by simp
      moreover from Some c have "configured_subnet L N j = Some c"
        by (simp add: inet_cidr_configured)
      ultimately show ?thesis using c True by auto
    next
      case False
      with Some c Cons.prems have "address_loop L N network ifaces = Inr (Some a)" by simp
      from Cons.IH [OF this] show ?thesis by auto
    qed
  qed
qed

subsection \<open>The loop of the lookup by address\<close>

lemma for_address_loop_step:
  assumes "passed_over L N (\<lambda>c. contains_address c a) j"
  shows "for_address_loop L N a key (j # rest) = for_address_loop L N a key rest"
  using assms
proof (cases rule: passed_over_cases)
  case 1
  then show ?thesis by simp
next
  case (2 entries c)
  then show ?thesis by simp
qed

lemma for_address_loop_pass:
  assumes "\<forall>j\<in>set before. passed_over L N (\<lambda>c. contains_address c a) j"
  shows "for_address_loop L N a key (before @ rest) = for_address_loop L N a key rest"
  using assms
proof (induction before)
  case Nil
  then show ?case by simp
next
  case (Cons j before)
  then have "for_address_loop L N a key (j # before @ rest) = for_address_loop L N a key (before @ rest)"
    by (intro for_address_loop_step) simp
  with Cons show ?case by simp
qed

lemma for_address_loop_none:
  assumes "\<forall>j\<in>set ifaces. passed_over L N (\<lambda>c. contains_address c a) j"
  shows "for_address_loop L N a key ifaces = Inr None"
  using for_address_loop_pass [OF assms, of key "[]"] by simp

lemma for_address_loop_hit:
  assumes "ifaddresses N i AF_INET = Some (entry # others)"
    and "configured_subnet L N i = Some c"
    and "contains_address c a"
  shows "for_address_loop L N a key (i # rest) =
           (if key = ''iface'' then Inr (Some i)
            else case entry key of None \<Rightarrow> Inl (Raised (KeyError key)) | Some v \<Rightarrow> Inr (Some v))"
proof -
  from assms(1,2) have "inet_cidr L (entry # others) = Inr c"
    by (simp add: inet_cidr_configured)
  with assms show ?thesis by simp
qed

lemma for_address_loop_error:
  assumes "ifaddresses N i AF_INET = Some entries"
    and "inet_cidr L entries = Inl e"
  shows "for_address_loop L N a key (i # rest) = Inl e"
  using assms by simp

lemma lookup_loops_agree:
  "(for_address_loop L N a ''iface'' ifaces = Inr None \<and>
    for_address_loop L N a ''netmask'' ifaces = Inr None) \<or>
   (\<exists>e. for_address_loop L N a ''iface'' ifaces = Inl e \<and>
        for_address_loop L N a ''netmask'' ifaces = Inl e) \<or>
   (\<exists>before i after entry others nm cidr.
      ifaces = before @ i # after \<and>
      (\<forall>j\<in>set before. passed_over L N (\<lambda>c. contains_address c a) j) \<and>
      configured_subnet L N i = Some cidr \<and> contains_address cidr a \<and>
      ifaddresses N i AF_INET = Some (entry # others) \<and>
      entry ''netmask'' = Some nm \<and>
      for_address_loop L N a ''iface'' ifaces = Inr (Some i) \<and>
      for_address_loop L N a ''netmask'' ifaces = Inr (Some nm))"
  (is "?absent ifaces \<or> ?error ifaces \<or> ?found ifaces")
proof (induction ifaces)
  case Nil
  then show ?case by simp
next
  case (Cons j ifaces)
  let ?pass = "passed_over L N (\<lambda>c. contains_address c a)"
  show ?case
  proof (cases "?pass j")
    case True
    then have step: "for_address_loop L N a key (j # ifaces) = for_address_loop L N a key ifaces" for key
      by (rule for_address_loop_step)
    from Cons.IH consider "?absent ifaces" | "?error ifaces" | "?found ifaces" by blast
    then show ?thesis
    proof cases
      case 1
      then have "?absent (j # ifaces)" by (simp only: step)
      then show ?thesis by blast
    next
      case 2
      then have "?error (j # ifaces)" by (simp only: step)
      then show ?thesis by blast
    next
      case 3
      then obtain before i after entry others nm cidr where
        d: "ifaces = before @ i # after" "\<forall>k\<in>set before. ?pass k"
          "configured_subnet L N i = Some cidr \<and> contains_address cidr a"
          "ifaddresses N i AF_INET = Some (entry # others)" "entry ''netmask'' = Some nm"
          "for_address_loop L N a ''iface'' ifaces = Inr (Some i)"
          "for_address_loop L N a ''netmask'' ifaces = Inr (Some nm)"
        by blast
      have "j # ifaces = (j # before) @ i # after" using d(1) by simp
      moreover have "\<forall>k\<in>set (j # before). ?pass k" using d(2) True by simp
      moreover have "for_address_loop L N a ''iface'' (j # ifaces) = Inr (Some i)"
        "for_address_loop L N a ''netmask'' (j # ifaces) = Inr (Some nm)"
        using d(6,7) by (simp_all only: step)
      ultimately have "?found (j # ifaces)" using d(3,4,5) by blast
      then show ?thesis by blast
    qed
  next
    case False
    then show ?thesis
    proof (cases rule: not_passed_over_cases)
      case (1 entries e)
      then have "for_address_loop L N a key (j # ifaces) = Inl e" for key
        by (rule for_address_loop_error)
      then have "?error (j # ifaces)" by blast
      then show ?thesis by blast
    next
      case (2 entries c)
      then have cs: "configured_subnet L N j = Some c" by (simp add: inet_cidr_configured)
      then obtain entry others nm where
        e: "ifaddresses N j AF_INET = Some (entry # others)" "entry ''netmask'' = Some nm"
        using configured_subnet_entry by blast
      have hit: "for_address_loop L N a key (j # ifaces) =
          (if key = ''iface'' then Inr (Some j)
           else case entry key of None \<Rightarrow> Inl (Raised (KeyError key)) | Some v \<Rightarrow> Inr (Some v))" for key
        by (rule for_address_loop_hit [OF e(1) cs 2(3)])
      have "for_address_loop L N a ''iface'' (j # ifaces) = Inr (Some j)"
        using hit [of "''iface''"] by simp
      moreover have "for_address_loop L N a ''netmask'' (j # ifaces) = Inr (Some nm)"
        using hit [of "''netmask''"] e(2) by simp
      moreover have "j # ifaces = [] @ j # ifaces" "\<forall>k\<in>set []. ?pass k" by simp_all
      ultimately have "?found (j # ifaces)" using cs 2(3) e by blast
      then show ?thesis by blast
    qed
  qed
qed

subsection \<open>Who exits\<close>

lemma validate_cidr_no_exit: "validate_cidr L network \<noteq> Inl (SystemExit code)"
  by (simp add: validate_cidr_def split: sum.splits exn.splits)

lemma inet_cidr_no_exit: "inet_cidr L entries \<noteq> Inl (SystemExit code)"
  by (simp add: inet_cidr_def split: list.splits option.splits sum.splits)

lemma address_loop_no_exit: "address_loop L N network ifaces \<noteq> Inl (SystemExit code)"
proof (induction ifaces)
  case Nil
  then show ?case by simp
next
  case (Cons j ifaces)
  then show ?case
    using inet_cidr_no_exit [of L _ code]
    by (auto split: option.splits sum.splits)
qed

lemma for_address_loop_no_exit: "for_address_loop L N a key ifaces \<noteq> Inl (SystemExit code)"
proof (induction ifaces)
  case Nil
  then show ?case by simp
next
  case (Cons j ifaces)
  then show ?case
    using inet_cidr_no_exit [of L _ code]
    by (auto split: option.splits sum.splits list.splits)
qed

lemma lookups_never_exit:
  "is_address_in_network L network address \<noteq> Inl (SystemExit code)"
  "get_iface_for_address L N address \<noteq> Inl (SystemExit code)"
  "get_netmask_for_address L N address \<noteq> Inl (SystemExit code)"
  using for_address_loop_no_exit [of L N _ _ "interfaces N" code]
  by (auto simp: is_address_in_network_def get_iface_for_address_def get_netmask_for_address_def
      get_for_address_def Let_def split: sum.splits exn.splits)

lemma fatal_exit_only:
  assumes "get_address_in_network L N network fallback fatal = (lg, Inl (SystemExit code))"
  shows "fatal \<and> fallback = None \<and> code = 1 \<and>
         lg = [(''No IP address found in network: '' @ format_s network, ''ERROR'')] \<and>
         (network = None \<or> address_loop L N network (interfaces N) = Inr None)"
  using assms validate_cidr_no_exit [of L network code]
    address_loop_no_exit [of L N network "interfaces N" code]
  by (auto simp: get_address_in_network_def not_found_error_out_def log_def ERROR_def Let_def
      split: if_splits sum.splits option.splits)

lemma fatal_exit_when:
  assumes "fatal" and "fallback = None"
    and "network = None \<or>
         (\<exists>net. new_IPNetwork L network = Inr net) \<and> address_loop L N network (interfaces N) = Inr None"
  shows "get_address_in_network L N network fallback fatal =
           ([(''No IP address found in network: '' @ format_s network, ''ERROR'')], Inl (SystemExit 1))"
  using assms
  by (auto simp: get_address_in_network_def validate_cidr_def not_found_error_out_def log_def ERROR_def
      Let_def)

lemma not_found_absent:
  assumes "\<not> fatal" and "fallback = None" and "network \<noteq> None"
    and "new_IPNetwork L network = Inr net"
    and "address_loop L N network (interfaces N) = Inr None"
  shows "get_address_in_network L N network fallback fatal = ([], Inr None)"
  using assms by (auto simp: get_address_in_network_def validate_cidr_def Let_def)

lemma lookup_not_found_absent:
  assumes "new_IPAddress L address = Inr a"
    and "\<forall>i\<in>set (interfaces N). passed_over L N (\<lambda>c. contains_address c a) i"
  shows "get_for_address L N address key = Inr None"
  using assms by (simp add: get_for_address_def for_address_loop_none)

section \<open>The IPv4 instance\<close>

lemma netaddr4_sel:
  "new_IPNetwork netaddr4 = ipv4_network"
  "new_IPAddress netaddr4 = ipv4_address"
  "str_IPAddress netaddr4 = ipv4_str"
  by (simp_all add: netaddr4_def)

subsection \<open>Printing and reading back\<close>

lemma digit_cases:
  assumes "d < (10::nat)"
  obtains "d = 0" | "d = 1" | "d = 2" | "d = 3" | "d = 4" | "d = 5" | "d = 6" | "d = 7" | "d = 8" | "d = 9"
proof -
  from assms have "d = 0 \<or> d = 1 \<or> d = 2 \<or> d = 3 \<or> d = 4 \<or> d = 5 \<or> d = 6 \<or> d = 7 \<or> d = 8 \<or> d = 9"
    by arith
  with that show ?thesis by blast
qed

lemma digit_value_digit_char: "d < 10 \<Longrightarrow> digit_value (digit_char d) = Some d"
  by (erule digit_cases) (simp_all add: digit_value_def digit_char_def)

lemma digit_char_not_dot: "d < 10 \<Longrightarrow> CHR ''.'' \<noteq> digit_char d"
  by (erule digit_cases) (simp_all add: digit_char_def)

lemma octet_octet_str:
  assumes "n < 256"
  shows "octet (octet_str n) = Some n"
proof -
  have d: "n div 100 < 10" "n div 10 mod 10 < 10" "n mod 10 < 10" using assms by simp_all
  consider "n < 10" | "10 \<le> n" "n < 100" | "100 \<le> n" by linarith
  then show ?thesis
  proof cases
    case 1
    then show ?thesis
      by (simp add: octet_def octet_str_def decimal_def digit_value_digit_char)
  next
    case 2
    then have "n div 10 < 10" by simp
    with 2 d show ?thesis
      by (simp add: octet_def octet_str_def decimal_def digit_value_digit_char)
  next
    case 3
    have "n div 100 = n div 10 div 10" by (simp add: div_mult2_eq [symmetric])
    moreover have "10 * (n div 10 div 10) + n div 10 mod 10 = n div 10" by simp
    ultimately have "10 * (10 * (n div 100) + n div 10 mod 10) + n mod 10 = n" by simp
    with 3 d assms show ?thesis
      by (simp add: octet_def octet_str_def decimal_def digit_value_digit_char)
  qed
qed

lemma dot_notin_octet_str:
  assumes "n < 256"
  shows "CHR ''.'' \<notin> set (octet_str n)"
proof -
  have "n div 100 < 10" "n div 10 mod 10 < 10" "n mod 10 < 10" "n < 100 \<Longrightarrow> n div 10 < 10"
    using assms by simp_all
  then show ?thesis
    by (simp add: octet_str_def digit_char_not_dot)
qed

lemma split_on_no_sep: "sep \<notin> set xs \<Longrightarrow> split_on sep xs = [xs]"
  by (induction xs) auto

lemma split_on_append: "sep \<notin> set xs \<Longrightarrow> split_on sep (xs @ sep # ys) = xs # split_on sep ys"
  by (induction xs) auto

lemma dotted_quad_ipv4_str:
  assumes "v < 2 ^ 32"
  shows "dotted_quad (ipv4_str (IPAddress ver v)) = Some v"
proof -
  define a b c d where "a = v div 2 ^ 24 mod 256" and "b = v div 2 ^ 16 mod 256"
    and "c = v div 2 ^ 8 mod 256" and "d = v mod 256"
  have lt: "a < 256" "b < 256" "c < 256" "d < 256" by (simp_all add: a_def b_def c_def d_def)
  have "split_on (CHR ''.'') (octet_str a @ CHR ''.'' # octet_str b @ CHR ''.'' # octet_str c @ CHR ''.'' # octet_str d)
      = [octet_str a, octet_str b, octet_str c, octet_str d]"
    using lt by (simp add: split_on_append split_on_no_sep dot_notin_octet_str)
  moreover have "((a * 256 + b) * 256 + c) * 256 + d = v"
  proof -
    define q1 q2 q3 where "q1 = v div 256" and "q2 = q1 div 256" and "q3 = q2 div 256"
    have "v div 2 ^ 8 = q1" "v div 2 ^ 16 = q2" "v div 2 ^ 24 = q3"
      by (simp_all add: q1_def q2_def q3_def div_mult2_eq [symmetric])
    then have c: "c = q1 mod 256" and b: "b = q2 mod 256" and a: "a = q3 mod 256"
      by (simp_all add: a_def b_def c_def)
    have "q3 < 256" using assms by (simp add: q1_def q2_def q3_def div_mult2_eq [symmetric])
    with a have "a = q3" by simp
    then have "a * 256 + b = q2" by (simp add: b q3_def)
    then have "(a * 256 + b) * 256 + c = q1" by (simp add: c q2_def)
    then show ?thesis by (simp add: d_def q1_def)
  qed
  ultimately show ?thesis
    using lt by (simp add: dotted_quad_def ipv4_str_def octet_octet_str a_def b_def c_def d_def)
qed

lemma octet_le: "octet s = Some n \<Longrightarrow> n \<le> 255"
  by (simp add: octet_def split: option.splits if_splits)

lemma dotted_quad_Some:
  assumes "dotted_quad s = Some v"
  obtains a b c d where "map octet (split_on (CHR ''.'') s) = [Some a, Some b, Some c, Some d]"
    and "v = ((a * 256 + b) * 256 + c) * 256 + d"
  using assms unfolding dotted_quad_def
  by (simp split: list.splits option.splits)

lemma dotted_quad_bound:
  assumes "dotted_quad s = Some v"
  shows "v < 2 ^ 32"
proof -
  from assms obtain a b c d where
    m: "map octet (split_on (CHR ''.'') s) = [Some a, Some b, Some c, Some d]"
    and v: "v = ((a * 256 + b) * 256 + c) * 256 + d"
    by (rule dotted_quad_Some)
  from m obtain s1 s2 s3 s4 where "octet s1 = Some a" "octet s2 = Some b" "octet s3 = Some c"
    "octet s4 = Some d"
    by (auto simp: map_eq_Cons_conv)
  then have "a \<le> 255" "b \<le> 255" "c \<le> 255" "d \<le> 255" by (simp_all add: octet_le)
  with v show ?thesis by simp
qed

lemma netmask_to_prefix_le: "netmask_to_prefix m = Some p \<Longrightarrow> p \<le> 32"
  by (auto simp: netmask_to_prefix_def find_Some_iff)

lemma prefix_of_le:
  assumes "prefix_of s = Some p"
  shows "p \<le> 32"
proof (cases "decimal s")
  case None
  with assms obtain m where "netmask_to_prefix m = Some p"
    by (auto simp: prefix_of_def split: option.splits)
  then show ?thesis by (rule netmask_to_prefix_le)
next
  case (Some q)
  with assms show ?thesis by (simp add: prefix_of_def split: if_splits)
qed

lemma ipv4_network_well_formed:
  assumes "ipv4_network x = Inr c"
  shows "net_version c = 4 \<and> net_value c < 2 ^ 32 \<and> prefixlen c \<le> 32"
proof -
  from assms obtain s where x: "x = Some s"
    by (cases x) (simp_all add: ipv4_network_def)
  define val1 where "val1 = takeWhile (\<lambda>c. c \<noteq> CHR ''/'') s"
  define rest where "rest = dropWhile (\<lambda>c. c \<noteq> CHR ''/'') s"
  from assms x obtain v where v: "dotted_quad val1 = Some v"
    by (cases "dotted_quad val1") (simp_all add: ipv4_network_def val1_def)
  then have bound: "v < 2 ^ 32" by (rule dotted_quad_bound)
  show ?thesis
  proof (cases rest)
    case Nil
    with assms x v have "c = IPNetwork 4 v 32"
      by (simp add: ipv4_network_def val1_def [symmetric] rest_def [symmetric])
    with bound show ?thesis by simp
  next
    case (Cons slash val2)
    with assms x v obtain p where "prefix_of val2 = Some p" "c = IPNetwork 4 v p"
      by (cases "prefix_of val2")
        (simp_all add: ipv4_network_def val1_def [symmetric] rest_def [symmetric])
    with bound prefix_of_le show ?thesis by simp
  qed
qed

lemma ipv4_address_well_formed:
  assumes "ipv4_address s = Inr a"
  shows "version a = 4 \<and> ip_value a < 2 ^ 32"
proof -
  from assms obtain v where "dotted_quad s = Some v" "a = IPAddress 4 v"
    by (cases "dotted_quad s") (auto simp: ipv4_address_def split: if_splits)
  with dotted_quad_bound [of s v] show ?thesis by simp
qed

lemma slash_notin_octet_str: "CHR ''/'' \<notin> set (octet_str n)"
proof -
  have "CHR ''/'' \<noteq> digit_char d" for d
  proof -
    have "d mod 10 < 10" by simp
    then show ?thesis
      by (rule digit_cases) (simp_all add: digit_char_def)
  qed
  then show ?thesis by (simp add: octet_str_def)
qed

lemma slash_notin_ipv4_str: "CHR ''/'' \<notin> set (ipv4_str a)"
  by (simp add: ipv4_str_def slash_notin_octet_str)

lemma ipv4_address_ipv4_str:
  assumes "v < 2 ^ 32"
  shows "ipv4_address (ipv4_str (IPAddress 4 v)) = Inr (IPAddress 4 v)"
  using assms by (simp add: ipv4_address_def dotted_quad_ipv4_str slash_notin_ipv4_str)

lemma netaddr4_reads_back:
  assumes "new_IPNetwork netaddr4 x = Inr c"
  shows "new_IPAddress netaddr4 (str_IPAddress netaddr4 (ip c)) = Inr (ip c)"
proof -
  from assms have "net_version c = 4" "net_value c < 2 ^ 32"
    using ipv4_network_well_formed [of x c] by (simp_all add: netaddr4_sel)
  then show ?thesis
    by (simp add: netaddr4_sel ip_def ipv4_address_ipv4_str)
qed

lemma netaddr4_contains_address:
  assumes "new_IPNetwork netaddr4 x = Inr n"
  shows "contains_address n a =
           (version a = 4 \<and> ip_value a div 2 ^ (32 - prefixlen n) = net_value n div 2 ^ (32 - prefixlen n))"
proof -
  from assms have wf: "net_version n = 4" "net_value n < 2 ^ 32" "prefixlen n \<le> 32"
    using ipv4_network_well_formed [of x n] by (simp_all add: netaddr4_sel)
  then have "net_value n < 2 ^ width (net_version n)" "prefixlen n \<le> width (net_version n)"
    by (simp_all add: width_def)
  from contains_address_same_prefix [OF this, of a] wf show ?thesis
    by (simp add: width_def)
qed

lemma netaddr4_scanned_address_is_in_network:
  assumes "address_loop netaddr4 N (Some network) (interfaces N) = Inr (Some a)"
  shows "is_address_in_network netaddr4 network a = Inr True"
proof -
  from address_loop_found [OF assms] obtain i c net where
    c: "configured_subnet netaddr4 N i = Some c"
    and net: "new_IPNetwork netaddr4 (Some network) = Inr net"
    and inside: "contains_network net c" and a: "a = str_IPAddress netaddr4 (ip c)"
    by blast
  from configured_subnet_entry [OF c] obtain s where "new_IPNetwork netaddr4 (Some s) = Inr c"
    by blast
  then have "new_IPAddress netaddr4 a = Inr (ip c)"
    unfolding a by (rule netaddr4_reads_back)
  moreover have "contains_address net (ip c)" using inside by (rule contains_network_ip)
  ultimately show ?thesis using net by (simp add: is_address_in_network_def)
qed

subsection \<open>The example host\<close>

lemma ipv4_network_not_a_cidr:
  "ipv4_network (Some ''not-a-cidr'') = Inl (AddrFormatError ''invalid IPNetwork not-a-cidr'')"
  by (simp add: ipv4_defs)

lemma ipv4_network_192: "ipv4_network (Some ''192.168.1.0/24'') = Inr (IPNetwork 4 3232235776 24)"
  by (simp add: ipv4_defs)

lemma ipv4_network_10: "ipv4_network (Some ''10.0.0.0/8'') = Inr (IPNetwork 4 167772160 8)"
  by (simp add: ipv4_defs)

lemma ipv4_network_lo: "ipv4_network (Some ''127.0.0.1/255.0.0.0'') = Inr (IPNetwork 4 2130706433 8)"
  by (simp add: ipv4_defs)

lemma ipv4_network_eth0:
  "ipv4_network (Some ''192.168.1.5/255.255.255.0'') = Inr (IPNetwork 4 3232235781 24)"
  by (simp add: ipv4_defs)

lemma ipv4_address_192_5: "ipv4_address ''192.168.1.5'' = Inr (IPAddress 4 3232235781)"
  by (simp add: ipv4_defs)

lemma ipv4_address_192_77: "ipv4_address ''192.168.1.77'' = Inr (IPAddress 4 3232235853)"
  by (simp add: ipv4_defs)

lemma ipv4_address_10: "ipv4_address ''10.0.0.5'' = Inr (IPAddress 4 167772165)"
  by (simp add: ipv4_defs)

lemma ipv4_address_with_prefix:
  "ipv4_address ''192.168.1.5/24'' =
     Inl (ValueError
       ''IPAddress() does not support netmasks or subnet prefixes! See documentation for details.'')"
  by (simp add: ipv4_address_def)

lemma ipv4_str_192_5: "ipv4_str (IPAddress 4 3232235781) = ''192.168.1.5''"
  by (simp add: ipv4_defs)

lemmas ipv4_values =
  ipv4_network_not_a_cidr ipv4_network_192 ipv4_network_10 ipv4_network_lo ipv4_network_eth0
  ipv4_address_192_5 ipv4_address_192_77 ipv4_address_10 ipv4_str_192_5

lemma interfaces_host: "interfaces host = [''lo'', ''eth0'', ''eth1'']"
  by (simp add: host_def)

lemma ifaddresses_eth0:
  "ifaddresses host ''eth0'' AF_INET =
     Some [[''addr'' \<mapsto> ''192.168.1.5'', ''netmask'' \<mapsto> ''255.255.255.0'']]"
  by (simp add: host_def)

lemma ifaddresses_eth1: "ifaddresses host ''eth1'' AF_INET = None"
  by (simp add: host_def AF_INET_def)

lemma configured_subnet_lo:
  "configured_subnet netaddr4 host ''lo'' = Some (IPNetwork 4 2130706433 8)"
  by (simp add: configured_subnet_def host_def netaddr4_def ipv4_values)

lemma configured_subnet_eth0:
  "configured_subnet netaddr4 host ''eth0'' = Some (IPNetwork 4 3232235781 24)"
  by (simp add: configured_subnet_def host_def netaddr4_def ipv4_values)

lemma configured_subnet_eth1: "configured_subnet netaddr4 host ''eth1'' = None"
  by (simp add: configured_subnet_def ifaddresses_eth1)

lemma passed_over_host_10:
  "passed_over netaddr4 host (\<lambda>c. contains_address c (IPAddress 4 167772165)) ''lo''"
  "passed_over netaddr4 host (\<lambda>c. contains_address c (IPAddress 4 167772165)) ''eth0''"
  "passed_over netaddr4 host (\<lambda>c. contains_address c (IPAddress 4 167772165)) ''eth1''"
  by (simp_all add: passed_over_def configured_subnet_lo configured_subnet_eth0 ifaddresses_eth1
      object_defs split: option.splits)

lemma passed_over_host_192_77:
  "passed_over netaddr4 host (\<lambda>c. contains_address c (IPAddress 4 3232235853)) ''lo''"
  by (simp add: passed_over_def configured_subnet_lo object_defs split: option.splits)

lemma address_loop_host_192:
  "address_loop netaddr4 host (Some ''192.168.1.0/24'') (interfaces host) = Inr (Some ''192.168.1.5'')"
proof -
  have n: "new_IPNetwork netaddr4 (Some ''192.168.1.0/24'') = Inr (IPNetwork 4 3232235776 24)"
    by (simp add: netaddr4_sel ipv4_values)
  have "passed_over netaddr4 host (contains_network (IPNetwork 4 3232235776 24)) ''lo''"
    by (simp add: passed_over_def configured_subnet_lo object_defs split: option.splits)
  then have "address_loop netaddr4 host (Some ''192.168.1.0/24'') (interfaces host) =
      address_loop netaddr4 host (Some ''192.168.1.0/24'') [''eth0'', ''eth1'']"
    unfolding interfaces_host by (rule address_loop_step [OF n])
  also have "\<dots> = Inr (Some (str_IPAddress netaddr4 (ip (IPNetwork 4 3232235781 24))))"
    by (rule address_loop_hit [OF n configured_subnet_eth0]) (simp add: object_defs)
  finally show ?thesis by (simp add: netaddr4_sel ip_def ipv4_values)
qed

lemma get_iface_host_192_77:
  "get_iface_for_address netaddr4 host ''192.168.1.77'' = Inr (Some ''eth0'')"
proof -
  have "for_address_loop netaddr4 host (IPAddress 4 3232235853) ''iface'' (interfaces host) =
      for_address_loop netaddr4 host (IPAddress 4 3232235853) ''iface'' [''eth0'', ''eth1'']"
    unfolding interfaces_host by (rule for_address_loop_step [OF passed_over_host_192_77])
  also have "\<dots> = Inr (Some ''eth0'')"
    using for_address_loop_hit [OF ifaddresses_eth0 configured_subnet_eth0, of "IPAddress 4 3232235853" "''iface''"]
    by (simp add: object_defs)
  finally show ?thesis
    by (simp add: get_iface_for_address_def get_for_address_def netaddr4_sel ipv4_values)
qed

section \<open>The claims\<close>

text \<open>
  C1. With the network \<^verbatim>\<open>None\<close>, no fallback and \<^verbatim>\<open>fatal\<close> false, the function should
  return \<^verbatim>\<open>None\<close>. It does not: the branch for a missing network returns only the
  fallback and exits only when \<^verbatim>\<open>fatal\<close> is set, so the call goes on to
  \<^verbatim>\<open>_validate_cidr(None)\<close> and the exception of the constructor surfaces. The first
  statement evaluates the call on the example host; the second says that no library
  that rejects \<^verbatim>\<open>None\<close> lets the call return.
\<close>

theorem get_address_in_network_none_raises: "get_address_in_network netaddr4 host None None False =
      ([], Inl (Raised (TypeError ''unexpected type for addr arg'')))"
  by (simp add: get_address_in_network_def validate_cidr_def netaddr4_def ipv4_network_def)

lemma get_address_in_network_none_never_absent:
  "new_IPNetwork L None = Inl e \<Longrightarrow> \<exists>e'. get_address_in_network L N None None False = ([], Inl (Raised e'))"
  by (cases e) (simp_all add: get_address_in_network_def validate_cidr_def)

text \<open>
  C2. With a network the library accepts, the scan goes through the interfaces in the
  order of the list, reads the first IPv4 entry of each, and returns the address of the
  first one whose range, derived from address and netmask, is contained in the network;
  the entries after the first and the interfaces after the match play no part.
\<close>

theorem get_address_in_network_first_match:
  assumes "new_IPNetwork L (Some network) = Inr net"
    and "interfaces N = before @ iface # after"
    and "\<forall>j\<in>set before. passed_over L N (contains_network net) j"
    and "ifaddresses N iface AF_INET = Some (entry # others)"
    and "entry ''addr'' = Some addr" and "entry ''netmask'' = Some netmask"
    and "new_IPNetwork L (Some (addr @ ''/'' @ netmask)) = Inr cidr"
    and "contains_network net cidr"
  shows "get_address_in_network L N (Some network) fallback fatal =
           ([], Inr (Some (str_IPAddress L (ip cidr))))"
proof -
  have cs: "configured_subnet L N iface = Some cidr"
    using assms(4-7) by (simp add: configured_subnet_def)
  have "address_loop L N (Some network) (iface # after) = Inr (Some (str_IPAddress L (ip cidr)))"
    by (rule address_loop_hit [OF assms(1) cs assms(8)])
  moreover have "address_loop L N (Some network) (before @ iface # after) =
      address_loop L N (Some network) (iface # after)"
    by (rule address_loop_pass [OF assms(1) assms(3)])
  ultimately show ?thesis
    using assms(1,2) by (simp add: get_address_in_network_def validate_cidr_def)
qed

theorem get_address_in_network_first_match_witness:
  "new_IPNetwork netaddr4 (Some ''192.168.1.0/24'') = Inr (IPNetwork 4 3232235776 24) \<and>
   interfaces host = [''lo''] @ ''eth0'' # [''eth1''] \<and>
   passed_over netaddr4 host (contains_network (IPNetwork 4 3232235776 24)) ''lo'' \<and>
   ifaddresses host ''eth0'' AF_INET =
     Some ([''addr'' \<mapsto> ''192.168.1.5'', ''netmask'' \<mapsto> ''255.255.255.0''] # []) \<and>
   new_IPNetwork netaddr4 (Some (''192.168.1.5'' @ ''/'' @ ''255.255.255.0'')) =
     Inr (IPNetwork 4 3232235781 24) \<and>
   contains_network (IPNetwork 4 3232235776 24) (IPNetwork 4 3232235781 24) \<and>
   get_address_in_network netaddr4 host (Some ''192.168.1.0/24'') (Some ''10.0.0.1'') True =
     ([], Inr (Some ''192.168.1.5''))"
proof -
  let ?entry = "[''addr'' \<mapsto> ''192.168.1.5'', ''netmask'' \<mapsto> ''255.255.255.0'']"
  have h1: "new_IPNetwork netaddr4 (Some ''192.168.1.0/24'') = Inr (IPNetwork 4 3232235776 24)"
    by (simp add: netaddr4_def ipv4_values)
  have h2: "interfaces host = [''lo''] @ ''eth0'' # [''eth1'']"
    by (simp add: host_def)
  have h3: "\<forall>j\<in>set [''lo'']. passed_over netaddr4 host (contains_network (IPNetwork 4 3232235776 24)) j"
    by (simp add: passed_over_def configured_subnet_lo object_defs split: option.splits)
  have h4: "ifaddresses host ''eth0'' AF_INET = Some (?entry # [])"
    by (simp add: host_def)
  have h5: "?entry ''addr'' = Some ''192.168.1.5''" and h6: "?entry ''netmask'' = Some ''255.255.255.0''"
    by simp_all
  have h7: "new_IPNetwork netaddr4 (Some (''192.168.1.5'' @ ''/'' @ ''255.255.255.0'')) =
      Inr (IPNetwork 4 3232235781 24)"
    by (simp add: netaddr4_def ipv4_values)
  have h8: "contains_network (IPNetwork 4 3232235776 24) (IPNetwork 4 3232235781 24)"
    by (simp add: object_defs)
  have s: "str_IPAddress netaddr4 (ip (IPNetwork 4 3232235781 24)) = ''192.168.1.5''"
    by (simp add: netaddr4_def ip_def ipv4_values)
  from get_address_in_network_first_match [OF h1 h2 h3 h4 h5 h6 h7 h8, of "Some ''10.0.0.1''" True] h1 h2 h3 h4 h7 h8 s
  show ?thesis by simp
qed

text \<open>
  C3. A network string that the library rejects (\<^verbatim>\<open>AddrFormatError\<close> or \<^verbatim>\<open>ValueError\<close>)
  makes both \<^verbatim>\<open>is_address_in_network\<close> and \<^verbatim>\<open>get_address_in_network\<close> raise a
  \<^verbatim>\<open>ValueError\<close> whose message quotes the string, whatever the other arguments are.
\<close>

theorem malformed_cidr_raises_value_error:
  assumes "new_IPNetwork L (Some network) = Inl (AddrFormatError m) \<or>
           new_IPNetwork L (Some network) = Inl (ValueError m)"
  shows "is_address_in_network L network address =
           Inl (Raised (ValueError (''Network ('' @ network @ '') is not in CIDR presentation format''))) \<and>
         get_address_in_network L N (Some network) fallback fatal =
           ([], Inl (Raised (ValueError (''Network ('' @ network @ '') is not in CIDR presentation format''))))"
  using assms
  by (auto simp: is_address_in_network_def get_address_in_network_def validate_cidr_def)

theorem malformed_cidr_raises_value_error_witness:
  "new_IPNetwork netaddr4 (Some ''not-a-cidr'') = Inl (AddrFormatError ''invalid IPNetwork not-a-cidr'') \<and>
   is_address_in_network netaddr4 ''not-a-cidr'' ''192.168.1.5'' =
     Inl (Raised (ValueError ''Network (not-a-cidr) is not in CIDR presentation format'')) \<and>
   get_address_in_network netaddr4 host (Some ''not-a-cidr'') (Some ''10.0.0.1'') True =
     ([], Inl (Raised (ValueError ''Network (not-a-cidr) is not in CIDR presentation format'')))"
proof -
  have h: "new_IPNetwork netaddr4 (Some ''not-a-cidr'') = Inl (AddrFormatError ''invalid IPNetwork not-a-cidr'')"
    by (simp add: netaddr4_def ipv4_network_not_a_cidr)
  from h malformed_cidr_raises_value_error [of netaddr4 "''not-a-cidr''" "''invalid IPNetwork not-a-cidr''" "''192.168.1.5''" host "Some ''10.0.0.1''" True]
  show ?thesis by simp
qed

text \<open>
  C4. When both arguments parse, \<^verbatim>\<open>is_address_in_network\<close> returns exactly whether the
  network contains the address (by \<open>contains_address_same_prefix\<close>, whether both have
  the same leading bits); 192.168.1.5 is in 192.168.1.0/24 and 10.0.0.5 is not.
\<close>

theorem is_address_in_network_containment:
  "(new_IPNetwork L (Some network) = Inr net \<longrightarrow> new_IPAddress L address = Inr a \<longrightarrow>
      is_address_in_network L network address = Inr (contains_address net a)) \<and>
   is_address_in_network netaddr4 ''192.168.1.0/24'' ''192.168.1.5'' = Inr True \<and>
   is_address_in_network netaddr4 ''192.168.1.0/24'' ''10.0.0.5'' = Inr False"
proof (intro conjI impI)
  assume "new_IPNetwork L (Some network) = Inr net" "new_IPAddress L address = Inr a"
  then show "is_address_in_network L network address = Inr (contains_address net a)"
    by (simp add: is_address_in_network_def)
next
  show "is_address_in_network netaddr4 ''192.168.1.0/24'' ''192.168.1.5'' = Inr True"
    by (simp add: is_address_in_network_def netaddr4_def ipv4_values object_defs)
next
  show "is_address_in_network netaddr4 ''192.168.1.0/24'' ''10.0.0.5'' = Inr False"
    by (simp add: is_address_in_network_def netaddr4_def ipv4_values object_defs)
qed

theorem is_address_in_network_containment_witness:
  "new_IPNetwork netaddr4 (Some ''192.168.1.0/24'') = Inr (IPNetwork 4 3232235776 24) \<and>
   new_IPAddress netaddr4 ''192.168.1.77'' = Inr (IPAddress 4 3232235853) \<and>
   contains_address (IPNetwork 4 3232235776 24) (IPAddress 4 3232235853) \<and>
   is_address_in_network netaddr4 ''192.168.1.0/24'' ''192.168.1.77'' = Inr True"
proof -
  have n: "new_IPNetwork netaddr4 (Some ''192.168.1.0/24'') = Inr (IPNetwork 4 3232235776 24)"
    by (simp add: netaddr4_def ipv4_values)
  have a: "new_IPAddress netaddr4 ''192.168.1.77'' = Inr (IPAddress 4 3232235853)"
    by (simp add: netaddr4_def ipv4_values)
  have c: "contains_address (IPNetwork 4 3232235776 24) (IPAddress 4 3232235853)"
    by (simp add: object_defs)
  from is_address_in_network_containment [of netaddr4 "''192.168.1.0/24''" "IPNetwork 4 3232235776 24" "''192.168.1.77''"
      "IPAddress 4 3232235853"] n a c
  show ?thesis by simp
qed

text \<open>
  C5. The process exits only in \<^verbatim>\<open>get_address_in_network\<close>, only with \<^verbatim>\<open>fatal\<close> set and
  neither a match nor a fallback, with one error entry in the log and exit code 1
  (\<open>fatal_exit_only\<close>, \<open>fatal_exit_when\<close>, \<open>lookups_never_exit\<close>), and a scan that finds
  nothing returns \<^verbatim>\<open>None\<close> (\<open>not_found_absent\<close>, \<open>lookup_not_found_absent\<close>). The claim
  that every other case without an address returns \<^verbatim>\<open>None\<close> fails where the network is
  \<^verbatim>\<open>None\<close> and \<^verbatim>\<open>fatal\<close> is false: on the example host the exit and the scan behave as
  claimed, and the call without a network does not return \<^verbatim>\<open>None\<close>.
\<close>

theorem not_found_without_network_not_absent:
  "get_address_in_network netaddr4 host None None True =
     ([(''No IP address found in network: None'', ''ERROR'')], Inl (SystemExit 1)) \<and>
   get_address_in_network netaddr4 host (Some ''10.0.0.0/8'') None False = ([], Inr None) \<and>
   get_address_in_network netaddr4 host None None False \<noteq> ([], Inr None)"
proof (intro conjI)
  show "get_address_in_network netaddr4 host None None True =
     ([(''No IP address found in network: None'', ''ERROR'')], Inl (SystemExit 1))"
    by (rule fatal_exit_when [of True None None, simplified])
  have n: "new_IPNetwork netaddr4 (Some ''10.0.0.0/8'') = Inr (IPNetwork 4 167772160 8)"
    by (simp add: netaddr4_sel ipv4_values)
  have "\<forall>j\<in>set (interfaces host). passed_over netaddr4 host (contains_network (IPNetwork 4 167772160 8)) j"
    by (simp add: interfaces_host passed_over_def configured_subnet_lo configured_subnet_eth0
        ifaddresses_eth1 object_defs split: option.splits)
  then have "address_loop netaddr4 host (Some ''10.0.0.0/8'') (interfaces host) = Inr None"
    by (rule address_loop_none [OF n])
  with n show "get_address_in_network netaddr4 host (Some ''10.0.0.0/8'') None False = ([], Inr None)"
    by (intro not_found_absent) simp_all
  show "get_address_in_network netaddr4 host None None False \<noteq> ([], Inr None)"
    by (simp add: get_address_in_network_def validate_cidr_def netaddr4_sel ipv4_network_def)
qed

text \<open>
  C6. When the network is \<^verbatim>\<open>None\<close> and a fallback is given, the fallback is returned,
  whatever the \<^verbatim>\<open>fatal\<close> flag and the interfaces of the host are; nothing is logged.
\<close>

theorem get_address_in_network_none_fallback: "get_address_in_network L N None (Some x) fatal = ([], Inr (Some x))"
  by (simp add: get_address_in_network_def)

text \<open>
  C7. For an address the library accepts: when every interface is passed over (it has
  no IPv4 entry, or its configured subnet does not contain the address), both lookups
  return \<^verbatim>\<open>None\<close>; when the first interface that is not passed over has a configured
  subnet containing the address, they return its name and the netmask of its first
  IPv4 entry.
\<close>

theorem lookup_by_address_first_match:
  assumes "new_IPAddress L address = Inr a"
  shows "((\<forall>i\<in>set (interfaces N). passed_over L N (\<lambda>c. contains_address c a) i) \<longrightarrow>
            get_iface_for_address L N address = Inr None \<and>
            get_netmask_for_address L N address = Inr None) \<and>
         (interfaces N = before @ iface # after \<and>
          (\<forall>j\<in>set before. passed_over L N (\<lambda>c. contains_address c a) j) \<and>
          ifaddresses N iface AF_INET = Some (entry # others) \<and>
          entry ''addr'' = Some addr \<and> entry ''netmask'' = Some netmask \<and>
          new_IPNetwork L (Some (addr @ ''/'' @ netmask)) = Inr cidr \<and>
          contains_address cidr a \<longrightarrow>
            get_iface_for_address L N address = Inr (Some iface) \<and>
            get_netmask_for_address L N address = Inr (Some netmask))"
proof (intro conjI impI)
  assume "\<forall>i\<in>set (interfaces N). passed_over L N (\<lambda>c. contains_address c a) i"
  then have "for_address_loop L N a key (interfaces N) = Inr None" for key
    by (rule for_address_loop_none)
  with assms show "get_iface_for_address L N address = Inr None"
    and "get_netmask_for_address L N address = Inr None"
    by (simp_all add: get_iface_for_address_def get_netmask_for_address_def get_for_address_def)
next
  assume h: "interfaces N = before @ iface # after \<and>
          (\<forall>j\<in>set before. passed_over L N (\<lambda>c. contains_address c a) j) \<and>
          ifaddresses N iface AF_INET = Some (entry # others) \<and>
          entry ''addr'' = Some addr \<and> entry ''netmask'' = Some netmask \<and>
          new_IPNetwork L (Some (addr @ ''/'' @ netmask)) = Inr cidr \<and>
          contains_address cidr a"
  then have ifs: "interfaces N = before @ iface # after"
    and pass: "\<forall>j\<in>set before. passed_over L N (\<lambda>c. contains_address c a) j"
    and entries: "ifaddresses N iface AF_INET = Some (entry # others)"
    and netmask: "entry ''netmask'' = Some netmask"
    and inside: "contains_address cidr a"
    by blast+
  from h have cs: "configured_subnet L N iface = Some cidr"
    by (simp add: configured_subnet_def)
  have loop: "for_address_loop L N a key (interfaces N) =
      (if key = ''iface'' then Inr (Some iface)
       else case entry key of None \<Rightarrow> Inl (Raised (KeyError key)) | Some v \<Rightarrow> Inr (Some v))" for key
    unfolding ifs for_address_loop_pass [OF pass]
    by (rule for_address_loop_hit [OF entries cs inside])
  from assms loop [of "''iface''"] show "get_iface_for_address L N address = Inr (Some iface)"
    by (simp add: get_iface_for_address_def get_for_address_def)
  from assms loop [of "''netmask''"] netmask show "get_netmask_for_address L N address = Inr (Some netmask)"
    by (simp add: get_netmask_for_address_def get_for_address_def)
qed

theorem lookup_by_address_first_match_witness:
  "new_IPAddress netaddr4 ''10.0.0.5'' = Inr (IPAddress 4 167772165) \<and>
   passed_over netaddr4 host (\<lambda>c. contains_address c (IPAddress 4 167772165)) ''lo'' \<and>
   passed_over netaddr4 host (\<lambda>c. contains_address c (IPAddress 4 167772165)) ''eth0'' \<and>
   passed_over netaddr4 host (\<lambda>c. contains_address c (IPAddress 4 167772165)) ''eth1'' \<and>
   get_iface_for_address netaddr4 host ''10.0.0.5'' = Inr None \<and>
   get_netmask_for_address netaddr4 host ''10.0.0.5'' = Inr None \<and>
   new_IPAddress netaddr4 ''192.168.1.77'' = Inr (IPAddress 4 3232235853) \<and>
   passed_over netaddr4 host (\<lambda>c. contains_address c (IPAddress 4 3232235853)) ''lo'' \<and>
   contains_address (IPNetwork 4 3232235781 24) (IPAddress 4 3232235853) \<and>
   get_iface_for_address netaddr4 host ''192.168.1.77'' = Inr (Some ''eth0'') \<and>
   get_netmask_for_address netaddr4 host ''192.168.1.77'' = Inr (Some ''255.255.255.0'')"
proof -
  let ?entry = "[''addr'' \<mapsto> ''192.168.1.5'', ''netmask'' \<mapsto> ''255.255.255.0'']"
  have a1: "new_IPAddress netaddr4 ''10.0.0.5'' = Inr (IPAddress 4 167772165)"
    by (simp add: netaddr4_sel ipv4_values)
  have p1: "\<forall>i\<in>set (interfaces host).
      passed_over netaddr4 host (\<lambda>c. contains_address c (IPAddress 4 167772165)) i"
    by (simp add: interfaces_host passed_over_host_10)
  have a2: "new_IPAddress netaddr4 ''192.168.1.77'' = Inr (IPAddress 4 3232235853)"
    by (simp add: netaddr4_sel ipv4_values)
  have c2: "contains_address (IPNetwork 4 3232235781 24) (IPAddress 4 3232235853)"
    by (simp add: object_defs)
  have h2: "interfaces host = [''lo''] @ ''eth0'' # [''eth1''] \<and>
      (\<forall>j\<in>set [''lo'']. passed_over netaddr4 host (\<lambda>c. contains_address c (IPAddress 4 3232235853)) j) \<and>
      ifaddresses host ''eth0'' AF_INET = Some (?entry # []) \<and>
      ?entry ''addr'' = Some ''192.168.1.5'' \<and> ?entry ''netmask'' = Some ''255.255.255.0'' \<and>
      new_IPNetwork netaddr4 (Some (''192.168.1.5'' @ ''/'' @ ''255.255.255.0'')) =
        Inr (IPNetwork 4 3232235781 24) \<and>
      contains_address (IPNetwork 4 3232235781 24) (IPAddress 4 3232235853)"
    using c2 by (simp add: interfaces_host passed_over_host_192_77 netaddr4_sel ipv4_values
        ifaddresses_eth0)
  from lookup_by_address_first_match [OF a1, of host, THEN conjunct1] p1
  have r1: "get_iface_for_address netaddr4 host ''10.0.0.5'' = Inr None \<and>
            get_netmask_for_address netaddr4 host ''10.0.0.5'' = Inr None"
    by blast
  from lookup_by_address_first_match [OF a2, of host "[''lo'']" "''eth0''" "[''eth1'']" ?entry "[]" "''192.168.1.5''"
      "''255.255.255.0''" "IPNetwork 4 3232235781 24", THEN conjunct2] h2
  have r2: "get_iface_for_address netaddr4 host ''192.168.1.77'' = Inr (Some ''eth0'') \<and>
            get_netmask_for_address netaddr4 host ''192.168.1.77'' = Inr (Some ''255.255.255.0'')"
    by blast
  from a1 a2 c2 r1 r2 passed_over_host_10 passed_over_host_192_77 show ?thesis by simp
qed

text \<open>
  C8. An address string that is no address should make both lookups raise a validation
  error that names the string, as \<^verbatim>\<open>is_address_in_network\<close> does with its own
  \<^verbatim>\<open>ValueError\<close> (lines 87 to 91). \<^verbatim>\<open>_get_for_address\<close> calls the constructor without a
  \<^verbatim>\<open>try\<close> (line 108), so whatever the library raises surfaces unchanged
  (\<open>malformed_address_surfaces_unchanged\<close>), while the sibling replaces it by its own
  message (\<open>is_address_in_network_malformed_address\<close>). For an address with a prefix the
  library's message does not name the string: on the example host both lookups raise
  that message, and \<^verbatim>\<open>is_address_in_network\<close> names the string.
\<close>

theorem malformed_address_not_named:
  "get_iface_for_address netaddr4 host ''192.168.1.5/24'' =
     Inl (Raised (ValueError
       ''IPAddress() does not support netmasks or subnet prefixes! See documentation for details.'')) \<and>
   get_netmask_for_address netaddr4 host ''192.168.1.5/24'' =
     Inl (Raised (ValueError
       ''IPAddress() does not support netmasks or subnet prefixes! See documentation for details.'')) \<and>
   is_address_in_network netaddr4 ''192.168.1.0/24'' ''192.168.1.5/24'' =
     Inl (Raised (ValueError ''Address (192.168.1.5/24) is not in correct presentation format''))"
  by (simp add: get_iface_for_address_def get_netmask_for_address_def get_for_address_def
      is_address_in_network_def netaddr4_sel ipv4_network_192 ipv4_address_with_prefix)

lemma malformed_address_surfaces_unchanged:
  assumes "new_IPAddress L address = Inl e"
  shows "get_iface_for_address L N address = Inl (Raised e) \<and>
         get_netmask_for_address L N address = Inl (Raised e)"
  using assms by (simp add: get_iface_for_address_def get_netmask_for_address_def get_for_address_def)

lemma is_address_in_network_malformed_address:
  assumes "new_IPNetwork L (Some network) = Inr net"
    and "new_IPAddress L address = Inl (AddrFormatError m) \<or>
         new_IPAddress L address = Inl (ValueError m)"
  shows "is_address_in_network L network address =
           Inl (Raised (ValueError (''Address ('' @ address @ '') is not in correct presentation format'')))"
  using assms by (auto simp: is_address_in_network_def)

text \<open>
  C9. An address that the scan of \<^verbatim>\<open>get_address_in_network\<close> found is returned by it and
  is in the network according to \<^verbatim>\<open>is_address_in_network\<close>, provided the library reads
  back the addresses it prints for the subnets of the host.
\<close>

theorem scanned_address_is_in_network:
  assumes found: "address_loop L N (Some network) (interfaces N) = Inr (Some a)"
    and roundtrip: "\<forall>i\<in>set (interfaces N). \<forall>c. configured_subnet L N i = Some c \<longrightarrow>
                      new_IPAddress L (str_IPAddress L (ip c)) = Inr (ip c)"
  shows "get_address_in_network L N (Some network) fallback fatal = ([], Inr (Some a)) \<and>
         is_address_in_network L network a = Inr True"
proof -
  from address_loop_found [OF found] obtain i c net where
    i: "i \<in> set (interfaces N)" and c: "configured_subnet L N i = Some c"
    and net: "new_IPNetwork L (Some network) = Inr net"
    and inside: "contains_network net c" and a: "a = str_IPAddress L (ip c)"
    by blast
  from roundtrip i c a have parse: "new_IPAddress L a = Inr (ip c)" by blast
  have "contains_address net (ip c)" using inside by (rule contains_network_ip)
  with net parse have "is_address_in_network L network a = Inr True"
    by (simp add: is_address_in_network_def)
  moreover from net found have "get_address_in_network L N (Some network) fallback fatal = ([], Inr (Some a))"
    by (simp add: get_address_in_network_def validate_cidr_def)
  ultimately show ?thesis by simp
qed

theorem scanned_address_is_in_network_witness:
  "address_loop netaddr4 host (Some ''192.168.1.0/24'') (interfaces host) = Inr (Some ''192.168.1.5'') \<and>
   get_address_in_network netaddr4 host (Some ''192.168.1.0/24'') (Some ''10.0.0.1'') True =
     ([], Inr (Some ''192.168.1.5'')) \<and>
   is_address_in_network netaddr4 ''192.168.1.0/24'' ''192.168.1.5'' = Inr True"
proof -
  have rt: "\<forall>i\<in>set (interfaces host). \<forall>c. configured_subnet netaddr4 host i = Some c \<longrightarrow>
      new_IPAddress netaddr4 (str_IPAddress netaddr4 (ip c)) = Inr (ip c)"
  proof (intro ballI allI impI)
    fix i c
    assume "configured_subnet netaddr4 host i = Some c"
    from configured_subnet_entry [OF this] obtain s where "new_IPNetwork netaddr4 (Some s) = Inr c"
      by blast
    then show "new_IPAddress netaddr4 (str_IPAddress netaddr4 (ip c)) = Inr (ip c)"
      by (rule netaddr4_reads_back)
  qed
  from scanned_address_is_in_network [OF address_loop_host_192 rt, of "Some ''10.0.0.1''" True]
    address_loop_host_192
  show ?thesis by simp
qed

text \<open>
  C10. The two lookups agree: one returns \<^verbatim>\<open>None\<close> exactly when the other does, one
  raises exactly when the other raises the same exception, and when \<^verbatim>\<open>get_iface_for_address\<close> returns an interface, it is the first one in the order
  of the list whose configured subnet contains the address, and
  \<^verbatim>\<open>get_netmask_for_address\<close> returns the netmask of the first IPv4 entry of that same
  interface.
\<close>

theorem iface_and_netmask_lookups_agree:
  "(get_iface_for_address L N address = Inr None \<longleftrightarrow>
    get_netmask_for_address L N address = Inr None) \<and>
   (get_iface_for_address L N address = Inl err \<longleftrightarrow>
    get_netmask_for_address L N address = Inl err) \<and>
   (get_iface_for_address L N address = Inr (Some iface) \<longrightarrow>
      (\<exists>a before after entry others nm cidr.
         new_IPAddress L address = Inr a \<and>
         interfaces N = before @ iface # after \<and>
         (\<forall>j\<in>set before. passed_over L N (\<lambda>c. contains_address c a) j) \<and>
         configured_subnet L N iface = Some cidr \<and> contains_address cidr a \<and>
         ifaddresses N iface AF_INET = Some (entry # others) \<and>
         entry ''netmask'' = Some nm \<and>
         get_netmask_for_address L N address = Inr (Some nm))) \<and>
   (get_netmask_for_address L N address = Inr (Some netmask) \<longrightarrow>
      (\<exists>i. get_iface_for_address L N address = Inr (Some i)))"
proof (cases "new_IPAddress L address")
  case (Inl e)
  then show ?thesis
    by (simp add: get_iface_for_address_def get_netmask_for_address_def get_for_address_def)
next
  case (Inr a)
  then have iface: "get_iface_for_address L N address = for_address_loop L N a ''iface'' (interfaces N)"
    and nmask: "get_netmask_for_address L N address = for_address_loop L N a ''netmask'' (interfaces N)"
    by (simp_all add: get_iface_for_address_def get_netmask_for_address_def get_for_address_def)
  from lookup_loops_agree [of L N a "interfaces N"]
  consider (absent) "for_address_loop L N a ''iface'' (interfaces N) = Inr None"
      "for_address_loop L N a ''netmask'' (interfaces N) = Inr None"
    | (error) e where "for_address_loop L N a ''iface'' (interfaces N) = Inl e"
      "for_address_loop L N a ''netmask'' (interfaces N) = Inl e"
    | (found) before i after entry others nm cidr where
      "interfaces N = before @ i # after"
      "\<forall>j\<in>set before. passed_over L N (\<lambda>c. contains_address c a) j"
      "configured_subnet L N i = Some cidr" "contains_address cidr a"
      "ifaddresses N i AF_INET = Some (entry # others)"
      "entry ''netmask'' = Some nm"
      "for_address_loop L N a ''iface'' (interfaces N) = Inr (Some i)"
      "for_address_loop L N a ''netmask'' (interfaces N) = Inr (Some nm)"
    by blast
  then show ?thesis
  proof cases
    case absent
    then show ?thesis by (simp add: iface nmask)
  next
    case error
    then show ?thesis by (simp add: iface nmask)
  next
    case found
    have nm: "get_netmask_for_address L N address = Inr (Some nm)"
      using found(8) by (simp add: nmask)
    have i: "get_iface_for_address L N address = Inr (Some i)"
      using found(7) by (simp add: iface)
    show ?thesis
    proof (intro conjI impI)
      show "get_iface_for_address L N address = Inr None \<longleftrightarrow>
            get_netmask_for_address L N address = Inr None"
        by (simp add: nm i)
    next
      show "get_iface_for_address L N address = Inl err \<longleftrightarrow>
            get_netmask_for_address L N address = Inl err"
        by (simp add: nm i)
    next
      assume "get_iface_for_address L N address = Inr (Some iface)"
      with i have eq: "i = iface" by simp
      show "\<exists>a before after entry others nm cidr.
         new_IPAddress L address = Inr a \<and>
         interfaces N = before @ iface # after \<and>
         (\<forall>j\<in>set before. passed_over L N (\<lambda>c. contains_address c a) j) \<and>
         configured_subnet L N iface = Some cidr \<and> contains_address cidr a \<and>
         ifaddresses N iface AF_INET = Some (entry # others) \<and>
         entry ''netmask'' = Some nm \<and>
         get_netmask_for_address L N address = Inr (Some nm)"
        using Inr found(1-6) nm unfolding eq by blast
    next
      show "\<exists>i. get_iface_for_address L N address = Inr (Some i)"
        using i by blast
    qed
  qed
qed

theorem iface_and_netmask_lookups_agree_witness:
  "get_iface_for_address netaddr4 host ''192.168.1.77'' = Inr (Some ''eth0'') \<and>
   get_netmask_for_address netaddr4 host ''192.168.1.77'' = Inr (Some ''255.255.255.0'')"
proof -
  from iface_and_netmask_lookups_agree [of netaddr4 host "''192.168.1.77''" _ "''eth0''",
      THEN conjunct2, THEN conjunct2, THEN conjunct1]
    get_iface_host_192_77
  obtain entry others nm where "ifaddresses host ''eth0'' AF_INET = Some (entry # others)"
    "entry ''netmask'' = Some nm"
    "get_netmask_for_address netaddr4 host ''192.168.1.77'' = Inr (Some nm)"
    by blast
  with get_iface_host_192_77 show ?thesis by (auto simp: ifaddresses_eth0)
qed

end
